theory Spec2Isabelle
  imports Main "HOL-Library.Word"
begin

section \<open>JavaScript strings\<close>

text \<open>
  A JavaScript string is a sequence of UTF-16 code units. The regular expression of
  \<open>extractTasks\<close> has no \<open>u\<close> flag, and \<open>trim\<close>, \<open>startsWith\<close> and \<open>replace\<close> with a
  string pattern all work on code units, so a string is a list of 16-bit words.
  \<open>js\<close> writes an ASCII literal as such a list.
\<close>

type_synonym jschar = "16 word"
type_synonym jsstring = "jschar list"

definition js :: "string \<Rightarrow> jsstring" where
  "js s = map of_char s"

text \<open>
  The line terminators of ECMAScript (LF, CR, LS, PS): the characters that \<open>.\<close> does not
  match in a regular expression without the \<open>s\<close> flag.
\<close>

definition isLineTerminator :: "jschar \<Rightarrow> bool" where
  "isLineTerminator c = (c = 0x0A \<or> c = 0x0D \<or> c = 0x2028 \<or> c = 0x2029)"

text \<open>
  The characters that \<open>String.prototype.trim\<close> removes: ECMAScript's WhiteSpace (TAB, VT,
  FF, ZWNBSP and the Unicode space separators) and the line terminators.
\<close>

definition isWhiteSpace :: "jschar \<Rightarrow> bool" where
  "isWhiteSpace c =
     (c = 0x09 \<or> c = 0x0B \<or> c = 0x0C \<or> c = 0x20 \<or> c = 0xA0 \<or> c = 0x1680
      \<or> (0x2000 \<le> c \<and> c \<le> 0x200A) \<or> c = 0x202F \<or> c = 0x205F \<or> c = 0x3000
      \<or> c = 0xFEFF \<or> isLineTerminator c)"

definition trim :: "jsstring \<Rightarrow> jsstring" where
  "trim s = rev (dropWhile isWhiteSpace (rev (dropWhile isWhiteSpace s)))"

definition startsWith :: "jsstring \<Rightarrow> jsstring \<Rightarrow> bool" where
  "startsWith s p = (take (length p) s = p)"

text \<open>
  \<open>s.replace(pat, rep)\<close> with a string pattern: the first occurrence of \<open>pat\<close> in \<open>s\<close> is
  replaced, and \<open>s\<close> is returned as it is when there is none. (The replacement of the
  source is the empty string, so no \<open>$\<close> pattern of the replacement is involved.)
\<close>

fun replace_first :: "jsstring \<Rightarrow> jsstring \<Rightarrow> jsstring \<Rightarrow> jsstring" where
  "replace_first pat rep [] = (if pat = [] then rep else [])"
| "replace_first pat rep (c # cs) =
     (if take (length pat) (c # cs) = pat then rep @ drop (length pat) (c # cs)
      else c # replace_first pat rep cs)"

section \<open>The marker and the regular expression of extractTasks\<close>

text \<open>
  The regular expression is
  \<^verbatim>\<open>/(.*?)(\(discord@(\d{4}-\d{2}-\d{2} \d{2}:\d{2})\))/g\<close>.
  Its second group, the marker, is a fixed sequence of 26 atoms, each a literal character
  or \<open>\d\<close> (an ASCII digit, as the expression has no \<open>u\<close> flag).
\<close>

definition isDigit :: "jschar \<Rightarrow> bool" where
  "isDigit c = (0x30 \<le> c \<and> c \<le> 0x39)"

datatype atom = Lit jschar | Digit

fun match_atoms :: "atom list \<Rightarrow> jsstring \<Rightarrow> bool" where
  "match_atoms [] s = True"
| "match_atoms (a # as) [] = False"
| "match_atoms (Lit x # as) (c # cs) = (c = x \<and> match_atoms as cs)"
| "match_atoms (Digit # as) (c # cs) = (isDigit c \<and> match_atoms as cs)"

definition marker :: "atom list" where
  "marker =
     map Lit (js ''(discord@'')
     @ [Digit, Digit, Digit, Digit, Lit 0x2D, Digit, Digit, Lit 0x2D, Digit, Digit,
        Lit 0x20, Digit, Digit, Lit 0x3A, Digit, Digit, Lit 0x29]"

text \<open>
  One attempt of the expression at a fixed start index, on the text from that index on.
  The lazy \<open>(.*?)\<close> first tries the marker where it stands and otherwise takes one more
  character, which must not be a line terminator; when it meets a line terminator or
  the end of the text before a marker, the attempt fails. A successful attempt gives
  group 1 (the text before the marker), group 3 (the 16 characters of the date and
  time, after the 9 characters of \<open>(discord@\<close>) and the text after the marker, where
  \<open>lastIndex\<close> then points.
\<close>

fun match_at :: "jsstring \<Rightarrow> (jsstring \<times> jsstring \<times> jsstring) option" where
  "match_at [] = None"
| "match_at (c # cs) =
     (if match_atoms marker (c # cs)
      then Some ([], take 16 (drop 9 (c # cs)), drop 26 (c # cs))
      else if isLineTerminator c then None
      else map_option (\<lambda>(g, p, r). (c # g, p, r)) (match_at cs))"

text \<open>
  \<open>regex.exec\<close> on the text from \<open>lastIndex\<close> on: the start indexes are tried from left
  to right, and the first attempt that succeeds is the match. The expression has no
  anchor and no lookbehind, so an attempt reads nothing before its start index.
\<close>

fun exec :: "jsstring \<Rightarrow> (jsstring \<times> jsstring \<times> jsstring) option" where
  "exec [] = None"
| "exec (c # cs) = (case match_at (c # cs) of Some m \<Rightarrow> Some m | None \<Rightarrow> exec cs)"

section \<open>Tasks and the host's Date\<close>

text \<open>
  A \<open>Date\<close> object holds a time value: a number of milliseconds since the epoch, or NaN
  for an invalid date (\<open>None\<close>).
\<close>

record task =
  content :: jsstring
  dueDateTime :: "int option"

text \<open>
  The host's \<open>Date\<close> is not code of the plugin: \<open>newDate\<close> stands for \<open>new Date(string)\<close>
  and \<open>toISOString\<close> for \<open>Date.prototype.toISOString\<close> on a valid date. The plugin is
  modelled for any host.
\<close>

record host =
  newDate :: "jsstring \<Rightarrow> int option"
  toISOString :: "int \<Rightarrow> jsstring"

text \<open>Lines 74 to 78: the text of a reminder from group 1 of a match.\<close>

definition reminderText :: "jsstring \<Rightarrow> jsstring" where
  "reminderText g =
     (let t = trim g
      in if startsWith t (js ''- [ ]'') then trim (replace_first (js ''- [ ]'') [] t) else t)"

lemma match_atoms_length: "match_atoms as s \<Longrightarrow> length as \<le> length s"
  by (induction as s rule: match_atoms.induct) auto

lemma match_at_shorter: "match_at s = Some (g, p, r) \<Longrightarrow> length r < length s"
proof (induction s arbitrary: g)
  case Nil
  then show ?case by simp
next
  case (Cons c cs)
  show ?case
  proof (cases "match_atoms marker (c # cs)")
    case True
    with Cons.prems show ?thesis by auto
  next
    case False
    with Cons.prems obtain g' where "match_at cs = Some (g', p, r)"
      by (auto split: if_splits)
    with Cons.IH have "length r < length cs" by blast
    then show ?thesis by simp
  qed
qed

lemma exec_shorter: "exec s = Some (g, p, r) \<Longrightarrow> length r < length s"
proof (induction s)
  case Nil
  then show ?case by simp
next
  case (Cons c cs)
  show ?case
  proof (cases "match_at (c # cs)")
    case None
    with Cons have "length r < length cs" by simp
    then show ?thesis by simp
  next
    case (Some m)
    with Cons.prems have "match_at (c # cs) = Some (g, p, r)" by simp
    then show ?thesis by (rule match_at_shorter)
  qed
qed

text \<open>
  Lines 68 to 85. The expression is created by each call, so \<open>lastIndex\<close> starts at 0;
  every successful \<open>exec\<close> pushes one task and moves \<open>lastIndex\<close> behind the marker, and
  the loop ends at the first \<open>exec\<close> that finds no match.
\<close>

function extractTasks :: "host \<Rightarrow> jsstring \<Rightarrow> task list" where
  "extractTasks H s =
     (case exec s of
        None \<Rightarrow> []
      | Some (g, p, r) \<Rightarrow>
          \<lparr>content = reminderText g, dueDateTime = newDate H p\<rparr> # extractTasks H r)"
  by pat_completeness auto
termination
  by (relation "measure (\<lambda>(H, s). length s)") (auto dest: exec_shorter)

lemma marker_nonempty: "match_atoms marker s \<Longrightarrow> s \<noteq> []"
  by (auto simp: marker_def dest: match_atoms_length)

text \<open>
  The text that a marker closes, read off the document in one pass from left to right:
  \<open>acc\<close> holds the characters since the last marker or line terminator, whichever came
  later; a marker gives the reminder text of \<open>acc\<close> and empties it, a line terminator
  empties it, and any other character is added to it.
\<close>

function line_contents :: "jsstring \<Rightarrow> jsstring \<Rightarrow> jsstring list" where
  "line_contents acc s =
     (if match_atoms marker s then reminderText acc # line_contents [] (drop 26 s)
      else (case s of
              [] \<Rightarrow> []
            | c # cs \<Rightarrow>
                if isLineTerminator c then line_contents [] cs
                else line_contents (acc @ [c]) cs))"
  by pat_completeness auto
termination
  by (relation "measure (\<lambda>(acc, s). length s)") (auto dest: marker_nonempty)

section \<open>The plugin\<close>

text \<open>
  The object that \<open>loadData\<close> returns and \<open>saveData\<close> writes (the plugin's \<open>data.json\<close>):
  a JSON object that may have the key \<open>webhookUrl\<close> and the key \<open>notifiedTasks\<close> (here
  \<open>notifiedTasks_record\<close>, as the plugin has a field of that name too). \<open>None\<close> is an
  absent key. The object \<open>settings\<close> of the plugin is such an object as well: it is
  built by \<open>Object.assign\<close>, which copies every key of the loaded data.
\<close>

record dataObject =
  webhookUrl :: "jsstring option"
  notifiedTasks_record :: "jsstring list option"

definition DEFAULT_SETTINGS :: dataObject where
  "DEFAULT_SETTINGS = \<lparr>webhookUrl = Some [], notifiedTasks_record = None\<rparr>"

text \<open>
  \<open>Object.assign({}, a, b)\<close> for these objects: a key of \<open>b\<close> overrides the key of \<open>a\<close>;
  \<open>b\<close> is \<open>null\<close> (\<open>None\<close>) when there is no saved data, and is then skipped.
\<close>

definition assign :: "dataObject \<Rightarrow> dataObject option \<Rightarrow> dataObject" where
  "assign a b =
     (case b of
        None \<Rightarrow> a
      | Some d \<Rightarrow>
          \<lparr>webhookUrl = (case webhookUrl d of None \<Rightarrow> webhookUrl a | Some u \<Rightarrow> Some u),
           notifiedTasks_record =
             (case notifiedTasks_record d of
                None \<Rightarrow> notifiedTasks_record a
              | Some l \<Rightarrow> Some l)\<rparr>)"

text \<open>
  A call of \<open>sendNotification\<close> and what it did: \<open>Warn reminderText dateTime\<close> is the
  call that only warns on the console, \<open>Post url reminderText dateTime\<close> the call that
  posts the payload (with the two fields) to \<open>url\<close>. The answer of the request is only
  logged, so it is not part of the model.
\<close>

datatype call = Warn jsstring jsstring | Post jsstring jsstring jsstring

text \<open>
  The state. \<open>settings\<close>, \<open>notifiedTasks\<close> and \<open>taskCache\<close> are the fields of the class
  \<open>DiscordReminder\<close> and live as long as the process. \<open>notifiedTasks\<close> is a \<open>Set\<close> of
  strings: the list of its elements in insertion order, without repetition. \<open>taskCache\<close>
  is a \<open>Set\<close> of task objects: a \<open>Set\<close> compares objects by reference and
  \<open>extractTasks\<close> builds a new object for every match, so \<open>add\<close> inserts each of them,
  and the set is the list of the objects added, in insertion order.
  \<open>stored\<close> is the plugin's saved data (\<open>None\<close> when nothing was ever saved: \<open>loadData\<close>
  gives \<open>null\<close>), and \<open>calls\<close> the calls of \<open>sendNotification\<close> so far; both outlive
  the process. Every \<open>await\<close> is taken to complete at once.
\<close>

record plugin =
  settings :: dataObject
  notifiedTasks :: "jsstring list"
  taskCache :: "task list"
  stored :: "dataObject option"
  calls :: "call list"

text \<open>\<open>Set.prototype.add\<close> and \<open>new Set(array)\<close> for a set of strings.\<close>

definition Set_add :: "jsstring \<Rightarrow> jsstring list \<Rightarrow> jsstring list" where
  "Set_add x xs = (if x \<in> set xs then xs else xs @ [x])"

definition new_Set :: "jsstring list \<Rightarrow> jsstring list" where
  "new_Set l = foldl (\<lambda>xs x. Set_add x xs) [] l"

text \<open>Lines 98 to 119: loading and saving.\<close>

definition loadSettings :: "plugin \<Rightarrow> plugin" where
  "loadSettings s = s\<lparr>settings := assign DEFAULT_SETTINGS (stored s)\<rparr>"

definition saveSettings :: "plugin \<Rightarrow> plugin" where
  "saveSettings s = s\<lparr>stored := Some (settings s)\<rparr>"

definition loadNotifiedTasks :: "plugin \<Rightarrow> plugin" where
  "loadNotifiedTasks s =
     (case stored s of
        None \<Rightarrow> s
      | Some d \<Rightarrow>
          (case notifiedTasks_record d of
             None \<Rightarrow> s
           | Some l \<Rightarrow> s\<lparr>notifiedTasks := new_Set l\<rparr>))"

definition saveNotifiedTasks :: "plugin \<Rightarrow> plugin" where
  "saveNotifiedTasks s =
     s\<lparr>stored := Some \<lparr>webhookUrl = None, notifiedTasks_record = Some (notifiedTasks s)\<rparr>\<rparr>"

text \<open>
  Lines 121 to 173. The guard is \<open>!webhookUrl || webhookUrl.trim() === ""\<close>: an absent
  or empty URL, or one of white space only.
\<close>

definition sendNotification :: "jsstring \<Rightarrow> jsstring \<Rightarrow> plugin \<Rightarrow> plugin" where
  "sendNotification reminder dateTime s =
     (case webhookUrl (settings s) of
        None \<Rightarrow> s\<lparr>calls := calls s @ [Warn reminder dateTime]\<rparr>
      | Some u \<Rightarrow>
          if u = [] \<or> trim u = [] then s\<lparr>calls := calls s @ [Warn reminder dateTime]\<rparr>
          else s\<lparr>calls := calls s @ [Post u reminder dateTime]\<rparr>)"

text \<open>
  Lines 87 to 96, with the reading \<open>now\<close> of the clock as an argument. \<open>toISOString\<close> of
  an invalid date throws a \<open>RangeError\<close>, and the template literal of line 89 calls it
  before anything else is done.
\<close>

datatype jserror = RangeError

definition taskId :: "host \<Rightarrow> jsstring \<Rightarrow> int \<Rightarrow> jsstring" where
  "taskId H c due = c @ js ''-'' @ toISOString H due"

definition checkTask :: "host \<Rightarrow> int \<Rightarrow> jsstring \<Rightarrow> int option \<Rightarrow> plugin \<Rightarrow> jserror + plugin" where
  "checkTask H now c d s =
     (case d of
        None \<Rightarrow> Inl RangeError
      | Some due \<Rightarrow>
          if due \<le> now \<and> taskId H c due \<notin> set (notifiedTasks s)
          then Inr (sendNotification c (toISOString H due)
                 (saveNotifiedTasks (s\<lparr>notifiedTasks := Set_add (taskId H c due) (notifiedTasks s)\<rparr>)))
          else Inr s)"

text \<open>
  Lines 61 to 66: \<open>forEach\<close> visits the tasks of the cache in insertion order, and
  \<open>clk i\<close> is what \<open>new Date()\<close> reads in the call for the task at position \<open>i\<close>. An
  exception of \<open>checkTask\<close> leaves \<open>forEach\<close> and \<open>checkTasks\<close>: the tasks behind are not
  visited, and what was done before stays done.
\<close>

fun forEach_checkTask ::
  "host \<Rightarrow> (nat \<Rightarrow> int) \<Rightarrow> nat \<Rightarrow> task list \<Rightarrow> plugin \<Rightarrow> jserror option \<times> plugin" where
  "forEach_checkTask H clk i [] s = (None, s)"
| "forEach_checkTask H clk i (t # ts) s =
     (case checkTask H (clk i) (content t) (dueDateTime t) s of
        Inl e \<Rightarrow> (Some e, s)
      | Inr s' \<Rightarrow> forEach_checkTask H clk (Suc i) ts s')"

definition checkTasks :: "host \<Rightarrow> (nat \<Rightarrow> int) \<Rightarrow> plugin \<Rightarrow> jserror option \<times> plugin" where
  "checkTasks H clk s = forEach_checkTask H clk 0 (taskCache s) s"

text \<open>
  Lines 41 to 59. A file is given with what \<open>vault.read\<close> returns for it at that moment.
\<close>

record tfile =
  path :: jsstring
  extension :: jsstring
  fileContent :: jsstring

definition addToTaskCache :: "host \<Rightarrow> tfile \<Rightarrow> plugin \<Rightarrow> plugin" where
  "addToTaskCache H f s =
     (if extension f \<noteq> js ''md'' then s
      else s\<lparr>taskCache := taskCache s @ extractTasks H (fileContent f)\<rparr>)"

definition handleFileChange :: "host \<Rightarrow> tfile \<Rightarrow> plugin \<Rightarrow> plugin" where
  "handleFileChange H f s = addToTaskCache H f s"

definition initializeTaskCache :: "host \<Rightarrow> tfile list \<Rightarrow> plugin \<Rightarrow> plugin" where
  "initializeTaskCache H files s = fold (addToTaskCache H) files (s\<lparr>taskCache := []\<rparr>)"

text \<open>
  Lines 16 to 39: a start of the process. The fields \<open>notifiedTasks\<close> and \<open>taskCache\<close> are
  initialised to empty sets, and \<open>onload\<close> loads the settings and the notified tasks
  and scans the markdown files \<open>files\<close> of the vault.
\<close>

definition onload :: "host \<Rightarrow> tfile list \<Rightarrow> plugin \<Rightarrow> plugin" where
  "onload H files s =
     initializeTaskCache H files
       (loadNotifiedTasks (loadSettings (s\<lparr>notifiedTasks := [], taskCache := []\<rparr>)))"

text \<open>Lines 196 to 199: the settings tab stores the new URL and saves the settings.\<close>

definition onChange :: "jsstring \<Rightarrow> plugin \<Rightarrow> plugin" where
  "onChange v s = saveSettings (s\<lparr>settings := (settings s)\<lparr>webhookUrl := Some v\<rparr>\<rparr>)"

text \<open>
  What happens to the plugin over time: the process starts (again), a file changes, the
  timer runs a sweep, the user edits the URL. An exception of a sweep is reported by the
  host and does not end the process.
\<close>

datatype event =
  Restart "tfile list"
| FileChanged tfile
| Sweep "nat \<Rightarrow> int"
| UrlEdited jsstring

fun step :: "host \<Rightarrow> event \<Rightarrow> plugin \<Rightarrow> plugin" where
  "step H (Restart files) s = onload H files s"
| "step H (FileChanged f) s = handleFileChange H f s"
| "step H (Sweep clk) s = snd (checkTasks H clk s)"
| "step H (UrlEdited v) s = onChange v s"

definition run :: "host \<Rightarrow> event list \<Rightarrow> plugin \<Rightarrow> plugin" where
  "run H evs s = fold (step H) evs s"

text \<open>The world before the plugin is started for the first time, with saved data \<open>d\<close>.\<close>

definition before_start :: "dataObject option \<Rightarrow> plugin" where
  "before_start d =
     \<lparr>settings = DEFAULT_SETTINGS, notifiedTasks = [], taskCache = [], stored = d, calls = []\<rparr>"

text \<open>
  The identity of a task, as line 89 computes it: the content, a hyphen and the ISO
  string of the due date. It does not exist for an invalid date.
\<close>

definition identity :: "host \<Rightarrow> task \<Rightarrow> jserror + jsstring" where
  "identity H t =
     (case dueDateTime t of None \<Rightarrow> Inl RangeError | Some due \<Rightarrow> Inr (taskId H (content t) due))"

text \<open>
  The task identity of a call of \<open>sendNotification\<close>: line 94 passes the content and the
  ISO string that line 89 joins to the identity.
\<close>

fun call_id :: "call \<Rightarrow> jsstring" where
  "call_id (Warn t d) = t @ js ''-'' @ d"
| "call_id (Post u t d) = t @ js ''-'' @ d"

text \<open>The notified tasks that the saved data holds.\<close>

definition persisted :: "plugin \<Rightarrow> jsstring list" where
  "persisted s =
     (case stored s of
        None \<Rightarrow> []
      | Some d \<Rightarrow> (case notifiedTasks_record d of None \<Rightarrow> [] | Some l \<Rightarrow> l))"

text \<open>
  The saved notified set is intact over a sequence of events when, at every start of the
  process, the saved data holds every identity that the process had in \<open>notifiedTasks\<close>.
\<close>

fun intact :: "host \<Rightarrow> event list \<Rightarrow> plugin \<Rightarrow> bool" where
  "intact H [] s = True"
| "intact H (Restart files # evs) s =
     (set (notifiedTasks s) \<subseteq> set (persisted s) \<and> intact H evs (step H (Restart files) s))"
| "intact H (e # evs) s = intact H evs (step H e s)"

text \<open>A URL that is unset or consists of white space only.\<close>

definition blank :: "jsstring option \<Rightarrow> bool" where
  "blank u = (case u of None \<Rightarrow> True | Some v \<Rightarrow> list_all isWhiteSpace v)"

text \<open>
  Every call of \<open>sendNotification\<close> so far was for an identity of its own, and each of
  these identities is in \<open>notifiedTasks\<close>.
\<close>

definition recorded :: "plugin \<Rightarrow> bool" where
  "recorded s =
     (distinct (map call_id (calls s)) \<and> set (map call_id (calls s)) \<subseteq> set (notifiedTasks s))"

text \<open>The condition of \<open>intact\<close> for one event.\<close>

definition restart_keeps :: "event \<Rightarrow> plugin \<Rightarrow> bool" where
  "restart_keeps e s =
     (case e of Restart files \<Rightarrow> set (notifiedTasks s) \<subseteq> set (persisted s) | _ \<Rightarrow> True)"

section \<open>A host for the examples\<close>

text \<open>
  The examples of this theory run on a host whose local time zone is UTC: \<open>new Date\<close>
  reads the 16 characters \<open>YYYY-MM-DD HH:MM\<close> of a marker as a wall-clock time, and gives
  an invalid date when the month, the day, the hour or the minute is out of range. The
  string has a space where the ISO format has a \<open>T\<close>, so it goes to the fallback parser
  of the engine, which takes a year below 50 as 2000 and later, a year from 50 to 99 as
  1950 and later, a day up to 31 in every month (the surplus runs into the next month)
  and the hour 24 with minute 0 as midnight of the next day.
  \<open>toISOString\<close> writes \<open>YYYY-MM-DDTHH:MM:SS.mmmZ\<close> (with a sign and six digits for a
  year outside 0 to 9999). Days are counted in the proleptic Gregorian calendar.
\<close>

definition digits_value :: "jsstring \<Rightarrow> int" where
  "digits_value ds = foldl (\<lambda>n c. 10 * n + (uint c - 48)) 0 ds"

definition days_from_civil :: "int \<Rightarrow> int \<Rightarrow> int \<Rightarrow> int" where
  "days_from_civil y m d =
     (let y' = (if m \<le> 2 then y - 1 else y);
          era = y' div 400;
          yoe = y' - era * 400;
          doy = (153 * (if 2 < m then m - 3 else m + 9) + 2) div 5 + d - 1;
          doe = yoe * 365 + yoe div 4 - yoe div 100 + doy
      in era * 146097 + doe - 719468)"

definition utc_newDate :: "jsstring \<Rightarrow> int option" where
  "utc_newDate p =
     (let y0 = digits_value (take 4 p);
          y = (if y0 < 50 then y0 + 2000 else if y0 < 100 then y0 + 1900 else y0);
          mo = digits_value (take 2 (drop 5 p));
          d = digits_value (take 2 (drop 8 p));
          h = digits_value (take 2 (drop 11 p));
          mi = digits_value (take 2 (drop 14 p))
      in if 1 \<le> mo \<and> mo \<le> 12 \<and> 1 \<le> d \<and> d \<le> 31
            \<and> (h \<le> 23 \<and> mi \<le> 59 \<or> h = 24 \<and> mi = 0)
         then Some (((days_from_civil y mo d * 24 + h) * 60 + mi) * 60000)
         else None)"

definition civil_from_days :: "int \<Rightarrow> int \<times> int \<times> int" where
  "civil_from_days z0 =
     (let z = z0 + 719468;
          era = z div 146097;
          doe = z - era * 146097;
          yoe = (doe - doe div 1460 + doe div 36524 - doe div 146096) div 365;
          doy = doe - (365 * yoe + yoe div 4 - yoe div 100);
          mp = (5 * doy + 2) div 153;
          d = doy - (153 * mp + 2) div 5 + 1;
          m = (if mp < 10 then mp + 3 else mp - 9)
      in ((if m \<le> 2 then yoe + era * 400 + 1 else yoe + era * 400), m, d))"

definition digit :: "int \<Rightarrow> int \<Rightarrow> jschar" where
  "digit v k = of_int (48 + v div k mod 10)"

definition utc_toISOString :: "int \<Rightarrow> jsstring" where
  "utc_toISOString t =
     (let ms = t mod 86400000;
          (y, m, d) = civil_from_days (t div 86400000)
      in (if 0 \<le> y \<and> y \<le> 9999 then [digit y 1000, digit y 100, digit y 10, digit y 1]
          else (if y < 0 then js ''-'' else js ''+'')
               @ [digit \<bar>y\<bar> 100000, digit \<bar>y\<bar> 10000, digit \<bar>y\<bar> 1000, digit \<bar>y\<bar> 100,
                  digit \<bar>y\<bar> 10, digit \<bar>y\<bar> 1])
         @ js ''-'' @ [digit m 10, digit m 1] @ js ''-'' @ [digit d 10, digit d 1]
         @ js ''T'' @ [digit (ms div 3600000) 10, digit (ms div 3600000) 1]
         @ js '':'' @ [digit (ms div 60000 mod 60) 10, digit (ms div 60000 mod 60) 1]
         @ js '':'' @ [digit (ms div 1000 mod 60) 10, digit (ms div 1000 mod 60) 1]
         @ js ''.'' @ [digit (ms mod 1000) 100, digit (ms mod 1000) 10, digit (ms mod 1000) 1]
         @ js ''Z'')"

definition utc_host :: host where
  "utc_host = \<lparr>newDate = utc_newDate, toISOString = utc_toISOString\<rparr>"

text \<open>
  The notes and the clock of the examples: a note with one marker, the same note with
  the marker removed, a note whose first marker has a date that does not exist, and a
  clock that reads 2025-01-01T09:00:00.000Z at every call.
\<close>

definition note_X :: tfile where
  "note_X = \<lparr>path = js ''a.md'', extension = js ''md'',
              fileContent = js ''X (discord@2025-01-01 09:00)''\<rparr>"

definition note_X_unmarked :: tfile where
  "note_X_unmarked = \<lparr>path = js ''a.md'', extension = js ''md'', fileContent = js ''X''\<rparr>"

definition note_bad_date :: tfile where
  "note_bad_date = \<lparr>path = js ''b.md'', extension = js ''md'',
      fileContent = js ''bad (discord@2024-13-40 25:99)'' @ [0x0A] @ js ''X (discord@2025-01-01 09:00)''\<rparr>"

definition at_nine :: "nat \<Rightarrow> int" where
  "at_nine i = 1735722000000"

definition task_X :: task where
  "task_X = \<lparr>content = js ''X'', dueDateTime = Some 1735722000000\<rparr>"

text \<open>
  The plugin after its first start on a vault that holds the note with one marker: with
  no saved data, and with a saved URL of two spaces.
\<close>

definition started :: plugin where
  "started = run utc_host [Restart [note_X]] (before_start None)"

definition started_blank :: plugin where
  "started_blank =
     run utc_host [Restart [note_X]]
       (before_start (Some \<lparr>webhookUrl = Some (js ''  ''), notifiedTasks_record = None\<rparr>))"

text \<open>
  The plugin after its first start, with no saved data, on a vault that holds the note
  whose first marker has a date that does not exist.
\<close>

definition started_bad_date :: plugin where
  "started_bad_date = run utc_host [Restart [note_bad_date]] (before_start None)"

text \<open>
  The plugin after the first sweep that follows the start on the note with one marker, at
  the due time of the task.
\<close>

definition notified :: plugin where
  "notified = run utc_host [Restart [note_X], Sweep at_nine] (before_start None)"

section \<open>Properties of the parser\<close>

subsection \<open>What the loop of extractTasks computes\<close>

lemma extractTasks_None: "exec s = None \<Longrightarrow> extractTasks H s = []"
  by (subst extractTasks.simps) simp

lemma extractTasks_Some:
  "exec s = Some (g, p, r) \<Longrightarrow>
     extractTasks H s = \<lparr>content = reminderText g, dueDateTime = newDate H p\<rparr> # extractTasks H r"
  by (subst extractTasks.simps) simp

lemma exec_of_match_at: "match_at s = Some m \<Longrightarrow> exec s = Some m"
  by (cases s) (simp_all del: match_at.simps(2))

lemma exec_skip: "match_at (c # cs) = None \<Longrightarrow> exec (c # cs) = exec cs"
  by (simp del: match_at.simps(2))

lemma extractTasks_skip:
  "match_at (c # cs) = None \<Longrightarrow> extractTasks H (c # cs) = extractTasks H cs"
  by (subst extractTasks.simps, subst (2) extractTasks.simps) (simp only: exec_skip)

subsection \<open>The content of a task lies within one line\<close>

lemma set_trim: "set (trim s) \<subseteq> set s"
proof -
  have "set (trim s) \<subseteq> set (dropWhile isWhiteSpace s)"
    unfolding trim_def using set_dropWhileD[of _ isWhiteSpace "rev (dropWhile isWhiteSpace s)"]
    by auto
  also have "\<dots> \<subseteq> set s" using set_dropWhileD by fastforce
  finally show ?thesis .
qed

lemma set_replace_first_empty: "set (replace_first pat [] s) \<subseteq> set s"
  by (induction s) (auto dest: in_set_dropD)

lemma set_reminderText: "set (reminderText g) \<subseteq> set g"
  unfolding reminderText_def Let_def
  using set_trim set_replace_first_empty by (auto; blast)

lemma match_at_no_line_terminator:
  "match_at s = Some (g, p, r) \<Longrightarrow> c \<in> set g \<Longrightarrow> \<not> isLineTerminator c"
proof (induction s arbitrary: g)
  case Nil
  then show ?case by simp
next
  case (Cons x xs)
  show ?case
  proof (cases "match_atoms marker (x # xs)")
    case True
    with Cons.prems show ?thesis by auto
  next
    case False
    with Cons.prems obtain g' where g': "match_at xs = Some (g', p, r)" "g = x # g'"
      "\<not> isLineTerminator x"
      by (auto split: if_splits)
    with Cons.IH Cons.prems show ?thesis by auto
  qed
qed

lemma exec_no_line_terminator:
  "exec s = Some (g, p, r) \<Longrightarrow> c \<in> set g \<Longrightarrow> \<not> isLineTerminator c"
proof (induction s)
  case Nil
  then show ?case by simp
next
  case (Cons x xs)
  then show ?case
    by (cases "match_at (x # xs)") (auto dest: match_at_no_line_terminator simp del: match_at.simps(2))
qed

lemma extractTasks_no_line_terminator:
  "t \<in> set (extractTasks H s) \<Longrightarrow> c \<in> set (content t) \<Longrightarrow> \<not> isLineTerminator c"
proof (induction H s rule: extractTasks.induct)
  case (1 H s)
  show ?case
  proof (cases "exec s")
    case None
    with "1.prems" show ?thesis by (simp add: extractTasks_None del: extractTasks.simps)
  next
    case (Some m)
    obtain g p r where m: "m = (g, p, r)" by (cases m)
    with Some have e: "exec s = Some (g, p, r)" by simp
    from "1.prems"(1) extractTasks_Some[OF e, of H]
    consider "t = \<lparr>content = reminderText g, dueDateTime = newDate H p\<rparr>"
      | "t \<in> set (extractTasks H r)"
      by (auto simp del: extractTasks.simps)
    then show ?thesis
    proof cases
      case 1
      with "1.prems"(2) have "c \<in> set g" using set_reminderText by auto
      with e show ?thesis by (blast dest: exec_no_line_terminator)
    next
      case 2
      from "1.IH"[OF Some m[symmetric] refl 2 "1.prems"(2)] show ?thesis .
    qed
  qed
qed

text \<open>
  Claim C10. For every input text, every task that \<open>extractTasks\<close> returns has a content
  without a newline character: the dot of the expression does not match a line
  terminator, so the content is drawn from the single line on which the marker stands.
  The theorem gives this for the newline and for every other line terminator.
\<close>

theorem content_within_one_line:
  "t \<in> set (extractTasks H doc) \<Longrightarrow>
     (0x0A :: jschar) \<notin> set (content t) \<and> \<not> (\<exists>c \<in> set (content t). isLineTerminator c)"
proof -
  assume t: "t \<in> set (extractTasks H doc)"
  have a: "\<not> (\<exists>c \<in> set (content t). isLineTerminator c)"
    using extractTasks_no_line_terminator[OF t] by blast
  have "isLineTerminator 0x0A" by (simp add: isLineTerminator_def)
  with a show ?thesis by blast
qed

text \<open>
  The theorem at a text of two lines: the task of the second line is extracted, and its
  content \<open>b\<close> holds no newline.
\<close>

theorem content_within_one_line_witness:
  "\<lparr>content = js ''b'', dueDateTime = Some 1735722000000\<rparr>
     \<in> set (extractTasks utc_host (js ''a'' @ [0x0A] @ js ''b (discord@2025-01-01 09:00)''))
   \<and> (0x0A :: jschar) \<notin> set (content \<lparr>content = js ''b'', dueDateTime = Some 1735722000000\<rparr>)
   \<and> \<not> (\<exists>c \<in> set (content \<lparr>content = js ''b'', dueDateTime = Some 1735722000000\<rparr>).
          isLineTerminator c)"
proof -
  have e: "extractTasks utc_host (js ''a'' @ [0x0A] @ js ''b (discord@2025-01-01 09:00)'')
             = [\<lparr>content = js ''b'', dueDateTime = Some 1735722000000\<rparr>]"
    by code_simp
  then have m: "\<lparr>content = js ''b'', dueDateTime = Some 1735722000000\<rparr>
     \<in> set (extractTasks utc_host (js ''a'' @ [0x0A] @ js ''b (discord@2025-01-01 09:00)''))"
    by simp
  from content_within_one_line[OF m] m show ?thesis by blast
qed

subsection \<open>The content is the text of the marker's line before the marker\<close>

lemma line_contents_exec:
  "line_contents acc s =
     (case match_at s of
        Some (g, p, r) \<Rightarrow> reminderText (acc @ g) # map content (extractTasks H r)
      | None \<Rightarrow> map content (extractTasks H s))"
proof (induction acc s rule: line_contents.induct)
  case (1 acc s)
  have restart: "line_contents [] r = map content (extractTasks H r)"
    if ih: "line_contents [] r =
              (case match_at r of
                 Some (g, p, r') \<Rightarrow> reminderText ([] @ g) # map content (extractTasks H r')
               | None \<Rightarrow> map content (extractTasks H r))" for r
  proof (cases "match_at r")
    case None
    with ih show ?thesis by simp
  next
    case (Some m)
    obtain g p r' where m: "m = (g, p, r')" by (cases m)
    from Some m have "exec r = Some (g, p, r')" by (simp add: exec_of_match_at)
    from extractTasks_Some[OF this, of H] ih Some m show ?thesis by simp
  qed
  show ?case
  proof (cases "match_atoms marker s")
    case True
    then obtain c cs where s: "s = c # cs" by (cases s) (auto dest: marker_nonempty)
    from True s have ma: "match_at s = Some ([], take 16 (drop 9 s), drop 26 s)" by simp
    from True have "line_contents acc s = reminderText acc # line_contents [] (drop 26 s)"
      by (subst line_contents.simps) simp
    also have "line_contents [] (drop 26 s) = map content (extractTasks H (drop 26 s))"
      using "1.IH"(1)[OF True] by (rule restart)
    finally show ?thesis using ma by simp
  next
    case False
    show ?thesis
    proof (cases s)
      case Nil
      with False show ?thesis
        by (subst line_contents.simps) (simp add: extractTasks_None)
    next
      case (Cons c cs)
      show ?thesis
      proof (cases "isLineTerminator c")
        case True
        with False Cons have none: "match_at (c # cs) = None" by simp
        from False Cons True have "line_contents acc s = line_contents [] cs"
          by (subst line_contents.simps) simp
        also have "\<dots> = map content (extractTasks H cs)"
          using "1.IH"(2)[OF False Cons True] by (rule restart)
        finally show ?thesis using none Cons by (simp add: extractTasks_skip del: match_at.simps(2))
      next
        case nlt: False
        from False Cons nlt have step: "line_contents acc s = line_contents (acc @ [c]) cs"
          by (subst line_contents.simps) simp
        note ih = "1.IH"(3)[OF False Cons nlt]
        show ?thesis
        proof (cases "match_at cs")
          case None
          with False Cons nlt have none: "match_at (c # cs) = None" by simp
          from step ih None have "line_contents acc s = map content (extractTasks H cs)" by simp
          with none Cons show ?thesis by (simp add: extractTasks_skip del: match_at.simps(2))
        next
          case (Some m)
          obtain g p r where m: "m = (g, p, r)" by (cases m)
          with Some False Cons nlt have "match_at (c # cs) = Some (c # g, p, r)" by simp
          with step ih Some m Cons show ?thesis by (simp del: match_at.simps(2))
        qed
      qed
    qed
  qed
qed

text \<open>
  Claim C5 says that the content of a task is all the text from the end of the previous
  marker (or the start of the document) up to the marker, trimmed. The code does not do
  that when a line terminator lies in between: for the text \<open>a\<close>, newline,
  \<open>b (discord@2025-01-01 09:00)\<close> the text before the marker trims to \<open>a\<close>, newline,
  \<open>b\<close>, and the content of the task is \<open>b\<close>.
\<close>

theorem content_spans_lines_counterexample:
  "map content (extractTasks utc_host (js ''a'' @ [0x0A] @ js ''b (discord@2025-01-01 09:00)''))
     = [js ''b'']
   \<and> map content (extractTasks utc_host (js ''a'' @ [0x0A] @ js ''b (discord@2025-01-01 09:00)''))
     \<noteq> [trim (js ''a'' @ [0x0A] @ js ''b '')]"
  by code_simp

text \<open>
  Claim C5 as amended. For every document text, the contents of the extracted tasks are,
  in order, one per marker occurrence, the text between the marker and the latest of the
  end of the previous marker, the last line terminator before the marker and the start
  of the document; this text is trimmed, and when it then begins with \<open>- [ ]\<close> that
  prefix is removed and the rest trimmed again. No content includes text at or before
  the closing parenthesis of the previous marker.
\<close>

theorem content_is_line_text_before_marker:
  "map content (extractTasks H doc) = line_contents [] doc"
proof (cases "match_at doc")
  case None
  with line_contents_exec[of "[]" doc H] show ?thesis by simp
next
  case (Some m)
  obtain g p r where m: "m = (g, p, r)" by (cases m)
  from Some m have "exec doc = Some (g, p, r)" by (simp add: exec_of_match_at)
  from extractTasks_Some[OF this, of H] line_contents_exec[of "[]" doc H] Some m
  show ?thesis by simp
qed

text \<open>
  The theorem at a text of two lines with a marker on each: the text \<open>b\<close> behind the
  first marker is on the first line and is not part of the second content.
\<close>

theorem content_is_line_text_before_marker_witness:
  "map content
     (extractTasks utc_host
        (js ''a (discord@2025-01-01 09:00) b'' @ [0x0A] @ js ''- [ ] c (discord@2025-01-02 10:30)''))
     = line_contents []
         (js ''a (discord@2025-01-01 09:00) b'' @ [0x0A] @ js ''- [ ] c (discord@2025-01-02 10:30)'')
   \<and> line_contents []
         (js ''a (discord@2025-01-01 09:00) b'' @ [0x0A] @ js ''- [ ] c (discord@2025-01-02 10:30)'')
     = [js ''a'', js ''c'']"
proof -
  have "line_contents []
         (js ''a (discord@2025-01-01 09:00) b'' @ [0x0A] @ js ''- [ ] c (discord@2025-01-02 10:30)'')
     = [js ''a'', js ''c'']"
    by code_simp
  with content_is_line_text_before_marker[of utc_host
         "js ''a (discord@2025-01-01 09:00) b'' @ [0x0A] @ js ''- [ ] c (discord@2025-01-02 10:30)''"]
  show ?thesis by simp
qed

subsection \<open>The checkbox prefix\<close>

lemma replace_first_prefix: "startsWith s p \<Longrightarrow> replace_first p rep s = rep @ drop (length p) s"
  by (cases s) (auto simp: startsWith_def)

lemma reminderText_strip:
  "reminderText g = (if startsWith (trim g) (js ''- [ ]'') then trim (drop 5 (trim g)) else trim g)"
proof -
  have "length (js ''- [ ]'') = 5" by (simp add: js_def)
  then show ?thesis by (simp add: reminderText_def Let_def replace_first_prefix)
qed

text \<open>
  Claim C6. \<open>extractTasks\<close> strips an unchecked checkbox prefix and only that: the input
  \<open>- [ ] Buy milk (discord@2025-01-01 09:00)\<close> yields the content \<open>Buy milk\<close>, the checked
  form \<open>- [x] Buy milk (discord@2025-01-01 09:00)\<close> yields the content \<open>- [x] Buy milk\<close>,
  and the prefix is stripped exactly when the trimmed captured text begins with \<open>- [ ]\<close>.
\<close>

theorem unchecked_checkbox_stripped:
  "map content (extractTasks H (js ''- [ ] Buy milk (discord@2025-01-01 09:00)'')) = [js ''Buy milk'']
   \<and> map content (extractTasks H (js ''- [x] Buy milk (discord@2025-01-01 09:00)''))
       = [js ''- [x] Buy milk'']
   \<and> reminderText g
       = (if startsWith (trim g) (js ''- [ ]'') then trim (drop 5 (trim g)) else trim g)"
proof -
  have a: "map content (extractTasks H (js ''- [ ] Buy milk (discord@2025-01-01 09:00)''))
             = [js ''Buy milk'']"
    by code_simp
  have b: "map content (extractTasks H (js ''- [x] Buy milk (discord@2025-01-01 09:00)''))
             = [js ''- [x] Buy milk'']"
    by code_simp
  from a b reminderText_strip show ?thesis by blast
qed

text \<open>
  The theorem on the example host, and at a captured text with two prefixes: only the
  first one is removed.
\<close>

theorem unchecked_checkbox_stripped_witness:
  "map content (extractTasks utc_host (js ''- [ ] Buy milk (discord@2025-01-01 09:00)''))
     = [js ''Buy milk'']
   \<and> reminderText (js ''  - [ ]   - [ ] twice '') = js ''- [ ] twice''"
proof -
  have "trim (drop 5 (trim (js ''  - [ ]   - [ ] twice ''))) = js ''- [ ] twice''"
    "startsWith (trim (js ''  - [ ]   - [ ] twice '')) (js ''- [ ]'')"
    by code_simp+
  with unchecked_checkbox_stripped[of utc_host "js ''  - [ ]   - [ ] twice ''"]
  show ?thesis by simp
qed

subsection \<open>Repeated extraction\<close>

text \<open>
  Claim C7. Parsing is deterministic and idempotent: two runs of \<open>extractTasks\<close> on the
  same text give task sequences of the same length, in the same order, with pairwise
  identical identities. \<open>extractTasks\<close> creates its expression anew in every call and
  reads no field of the plugin, so its result is a function of the text and of the
  host's \<open>Date\<close> alone.
\<close>

theorem extractTasks_idempotent:
  "(let first = extractTasks H doc; second = extractTasks H doc
    in length first = length second
       \<and> list_all2 (\<lambda>a b. identity H a = identity H b) first second)"
  by (simp add: Let_def list_all2_same del: extractTasks.simps)

text \<open>
  The identities of the two tasks of a text with two markers, on the example host.
\<close>

theorem extractTasks_idempotent_witness:
  "(let first = extractTasks utc_host (js ''X (discord@2025-01-01 09:00) - [ ] Y (discord@2025-01-02 10:30)'');
        second = extractTasks utc_host (js ''X (discord@2025-01-01 09:00) - [ ] Y (discord@2025-01-02 10:30)'')
    in length first = length second
       \<and> list_all2 (\<lambda>a b. identity utc_host a = identity utc_host b) first second)
   \<and> map (identity utc_host)
        (extractTasks utc_host (js ''X (discord@2025-01-01 09:00) - [ ] Y (discord@2025-01-02 10:30)''))
     = [Inr (js ''X-2025-01-01T09:00:00.000Z''), Inr (js ''Y-2025-01-02T10:30:00.000Z'')]"
proof -
  have "map (identity utc_host)
        (extractTasks utc_host (js ''X (discord@2025-01-01 09:00) - [ ] Y (discord@2025-01-02 10:30)''))
     = [Inr (js ''X-2025-01-01T09:00:00.000Z''), Inr (js ''Y-2025-01-02T10:30:00.000Z'')]"
    by code_simp
  with extractTasks_idempotent[of utc_host
      "js ''X (discord@2025-01-01 09:00) - [ ] Y (discord@2025-01-02 10:30)''"]
  show ?thesis by blast
qed

section \<open>Properties of the plugin\<close>

subsection \<open>Sets of strings\<close>

lemma set_Set_add: "set (Set_add x xs) = insert x (set xs)"
  by (auto simp: Set_add_def)

lemma set_new_Set_aux: "set (foldl (\<lambda>xs x. Set_add x xs) acc l) = set acc \<union> set l"
  by (induction l arbitrary: acc) (auto simp: set_Set_add)

lemma set_new_Set: "set (new_Set l) = set l"
  by (simp add: new_Set_def set_new_Set_aux)

subsection \<open>One call of checkTask\<close>

lemma call_id_sendNotification:
  "\<exists>k. calls (sendNotification c d s) = calls s @ [k] \<and> call_id k = c @ js ''-'' @ d"
  by (auto simp: sendNotification_def split: option.splits)

lemma sendNotification_frame:
  "notifiedTasks (sendNotification c d s) = notifiedTasks s"
  "stored (sendNotification c d s) = stored s"
  "settings (sendNotification c d s) = settings s"
  "taskCache (sendNotification c d s) = taskCache s"
  by (auto simp: sendNotification_def split: option.splits)

lemma checkTask_fires:
  assumes "due \<le> now" "taskId H c due \<notin> set (notifiedTasks s)"
  shows "\<exists>s' k. checkTask H now c (Some due) s = Inr s'
           \<and> notifiedTasks s' = notifiedTasks s @ [taskId H c due]
           \<and> calls s' = calls s @ [k] \<and> call_id k = taskId H c due
           \<and> persisted s' = notifiedTasks s'
           \<and> taskCache s' = taskCache s \<and> settings s' = settings s"
proof -
  let ?s1 = "saveNotifiedTasks (s\<lparr>notifiedTasks := Set_add (taskId H c due) (notifiedTasks s)\<rparr>)"
  from assms have ct: "checkTask H now c (Some due) s
      = Inr (sendNotification c (toISOString H due) ?s1)"
    by (simp add: checkTask_def)
  obtain k where k: "calls (sendNotification c (toISOString H due) ?s1) = calls ?s1 @ [k]"
    "call_id k = c @ js ''-'' @ toISOString H due"
    using call_id_sendNotification by blast
  from assms(2) have n: "notifiedTasks ?s1 = notifiedTasks s @ [taskId H c due]"
    by (simp add: saveNotifiedTasks_def Set_add_def)
  have p: "persisted ?s1 = notifiedTasks ?s1"
    by (simp add: saveNotifiedTasks_def persisted_def)
  have c: "calls ?s1 = calls s" "taskCache ?s1 = taskCache s" "settings ?s1 = settings s"
    by (simp_all add: saveNotifiedTasks_def)
  from ct k n p c show ?thesis
    by (simp add: sendNotification_frame taskId_def persisted_def)
qed

lemma checkTask_idle:
  assumes "\<not> (due \<le> now \<and> taskId H c due \<notin> set (notifiedTasks s))"
  shows "checkTask H now c (Some due) s = Inr s"
  using assms by (auto simp: checkTask_def)

lemma checkTask_valid: "\<exists>s'. checkTask H now c (Some d) s = Inr s'"
  by (simp add: checkTask_def)

lemma checkTask_cases:
  assumes "checkTask H now c d s = Inr s'"
  obtains (idle) "s' = s"
  | (fires) due k where "d = Some due" "due \<le> now" "taskId H c due \<notin> set (notifiedTasks s)"
      "notifiedTasks s' = notifiedTasks s @ [taskId H c due]"
      "calls s' = calls s @ [k]" "call_id k = taskId H c due"
      "persisted s' = notifiedTasks s'" "taskCache s' = taskCache s" "settings s' = settings s"
proof (cases d)
  case None
  with assms show ?thesis by (simp add: checkTask_def)
next
  case (Some due)
  show ?thesis
  proof (cases "due \<le> now \<and> taskId H c due \<notin> set (notifiedTasks s)")
    case True
    with checkTask_fires[of due now H c s] assms Some fires show ?thesis by auto
  next
    case False
    with checkTask_idle[OF False] assms Some idle show ?thesis by simp
  qed
qed

lemma checkTask_recorded:
  assumes "recorded s" "checkTask H now c d s = Inr s'"
  shows "recorded s'"
  using assms(2)
proof (cases rule: checkTask_cases)
  case idle
  with assms(1) show ?thesis by simp
next
  case (fires due k)
  with assms(1) show ?thesis by (auto simp: recorded_def)
qed

lemma checkTask_mono:
  assumes "checkTask H now c d s = Inr s'"
  shows "set (notifiedTasks s) \<subseteq> set (notifiedTasks s')"
  using assms by (cases rule: checkTask_cases) auto

subsection \<open>One sweep\<close>

lemma forEach_recorded:
  "recorded s \<Longrightarrow> recorded (snd (forEach_checkTask H clk i ts s))"
proof (induction ts arbitrary: i s)
  case Nil
  then show ?case by simp
next
  case (Cons t ts)
  show ?case
  proof (cases "checkTask H (clk i) (content t) (dueDateTime t) s")
    case (Inl e)
    with Cons.prems show ?thesis by simp
  next
    case (Inr s')
    with Cons.prems have "recorded s'" by (blast intro: checkTask_recorded)
    with Cons.IH[of s' "Suc i"] Inr show ?thesis by simp
  qed
qed

lemma forEach_mono:
  "set (notifiedTasks s) \<subseteq> set (notifiedTasks (snd (forEach_checkTask H clk i ts s)))"
proof (induction ts arbitrary: i s)
  case Nil
  then show ?case by simp
next
  case (Cons t ts)
  show ?case
  proof (cases "checkTask H (clk i) (content t) (dueDateTime t) s")
    case (Inl e)
    then show ?thesis by simp
  next
    case (Inr s')
    with checkTask_mono have "set (notifiedTasks s) \<subseteq> set (notifiedTasks s')" by blast
    with Cons.IH[of s' "Suc i"] Inr show ?thesis by auto
  qed
qed

lemma forEach_new_calls:
  "\<exists>new. calls (snd (forEach_checkTask H clk i ts s)) = calls s @ new
        \<and> distinct (map call_id new)
        \<and> set (map call_id new) \<inter> set (notifiedTasks s) = {}
        \<and> set (notifiedTasks (snd (forEach_checkTask H clk i ts s)))
            = set (notifiedTasks s) \<union> set (map call_id new)"
proof (induction ts arbitrary: i s)
  case Nil
  then show ?case by simp
next
  case (Cons t ts)
  show ?case
  proof (cases "checkTask H (clk i) (content t) (dueDateTime t) s")
    case (Inl e)
    then show ?thesis by simp
  next
    case (Inr s')
    from Cons.IH[of "Suc i" s'] obtain new where new:
      "calls (snd (forEach_checkTask H clk (Suc i) ts s')) = calls s' @ new"
      "distinct (map call_id new)"
      "set (map call_id new) \<inter> set (notifiedTasks s') = {}"
      "set (notifiedTasks (snd (forEach_checkTask H clk (Suc i) ts s')))
         = set (notifiedTasks s') \<union> set (map call_id new)"
      by blast
    from Inr show ?thesis
    proof (cases rule: checkTask_cases)
      case idle
      with new Inr show ?thesis by auto
    next
      case (fires due k)
      have "calls (snd (forEach_checkTask H clk i (t # ts) s)) = calls s @ (k # new)"
        using Inr new(1) fires(5) by simp
      moreover have "distinct (map call_id (k # new))"
        using new(2,3) fires(4,6) by auto
      moreover have "set (map call_id (k # new)) \<inter> set (notifiedTasks s) = {}"
        using new(3) fires(3,4,6) by auto
      moreover have "set (notifiedTasks (snd (forEach_checkTask H clk i (t # ts) s)))
            = set (notifiedTasks s) \<union> set (map call_id (k # new))"
        using Inr new(4) fires(4,6) by auto
      ultimately show ?thesis by blast
    qed
  qed
qed

lemma forEach_completes:
  "\<forall>t \<in> set ts. dueDateTime t \<noteq> None \<Longrightarrow> fst (forEach_checkTask H clk i ts s) = None"
proof (induction ts arbitrary: i s)
  case Nil
  then show ?case by simp
next
  case (Cons t ts)
  then obtain due where "dueDateTime t = Some due" by auto
  with checkTask_valid[of H "clk i" "content t" due s]
  obtain s' where "checkTask H (clk i) (content t) (dueDateTime t) s = Inr s'"
    by auto
  with Cons show ?case by simp
qed

lemma forEach_due_recorded:
  assumes "\<forall>t \<in> set ts. dueDateTime t \<noteq> None" "j < length ts"
    "dueDateTime (ts ! j) = Some due" "due \<le> clk (i + j)"
  shows "taskId H (content (ts ! j)) due
           \<in> set (notifiedTasks (snd (forEach_checkTask H clk i ts s)))"
  using assms
proof (induction ts arbitrary: i j s)
  case Nil
  then show ?case by simp
next
  case (Cons t ts)
  from Cons.prems(1) obtain d where d: "dueDateTime t = Some d" by auto
  from checkTask_valid[of H "clk i" "content t" d s]
  obtain s' where s': "checkTask H (clk i) (content t) (Some d) s = Inr s'"
    by auto
  with d have run: "forEach_checkTask H clk i (t # ts) s = forEach_checkTask H clk (Suc i) ts s'"
    by simp
  show ?case
  proof (cases j)
    case 0
    with Cons.prems d have due: "d = due" "due \<le> clk i" by simp_all
    have "taskId H (content t) due \<in> set (notifiedTasks s')"
    proof (cases "taskId H (content t) due \<in> set (notifiedTasks s)")
      case True
      with checkTask_mono[OF s'] show ?thesis by blast
    next
      case False
      with checkTask_fires[of due "clk i" H "content t" s] due s' show ?thesis by auto
    qed
    with forEach_mono[of s' H clk "Suc i" ts] run 0 show ?thesis by auto
  next
    case (Suc j')
    with Cons.prems have "j' < length ts" "dueDateTime (ts ! j') = Some due"
      "due \<le> clk (Suc i + j')" "\<forall>t \<in> set ts. dueDateTime t \<noteq> None"
      by simp_all
    from Cons.IH[OF this(4,1,2,3), of s'] run Suc show ?thesis by simp
  qed
qed

subsection \<open>Starts and file changes\<close>

lemma addToTaskCache_frame:
  "notifiedTasks (addToTaskCache H f s) = notifiedTasks s"
  "calls (addToTaskCache H f s) = calls s"
  "stored (addToTaskCache H f s) = stored s"
  "settings (addToTaskCache H f s) = settings s"
  by (simp_all add: addToTaskCache_def del: extractTasks.simps)

lemma fold_addToTaskCache_frame:
  "notifiedTasks (fold (addToTaskCache H) files s) = notifiedTasks s"
  "calls (fold (addToTaskCache H) files s) = calls s"
  "stored (fold (addToTaskCache H) files s) = stored s"
  "settings (fold (addToTaskCache H) files s) = settings s"
  by (induction files arbitrary: s) (simp_all add: addToTaskCache_frame)

lemma fold_addToTaskCache_cache:
  "taskCache (fold (addToTaskCache H) files s)
     = taskCache s
       @ concat (map (\<lambda>f. extractTasks H (fileContent f))
                  (filter (\<lambda>f. extension f = js ''md'') files))"
  by (induction files arbitrary: s) (simp_all add: addToTaskCache_def del: extractTasks.simps)

lemma onload_notifiedTasks: "set (notifiedTasks (onload H files s)) = set (persisted s)"
  by (simp add: onload_def initializeTaskCache_def fold_addToTaskCache_frame loadNotifiedTasks_def
      loadSettings_def persisted_def set_new_Set split: option.splits)

lemma onload_calls: "calls (onload H files s) = calls s"
  by (simp add: onload_def initializeTaskCache_def fold_addToTaskCache_frame loadNotifiedTasks_def
      loadSettings_def split: option.splits)

lemma cold_start_empty:
  "persisted s = [] \<Longrightarrow> notifiedTasks (onload H files s) = []"
  using onload_notifiedTasks[of H files s] by simp

subsection \<open>At most one notification for an identity\<close>

lemma step_recorded:
  assumes "recorded s" "restart_keeps e s"
  shows "recorded (step H e s) \<and> set (notifiedTasks s) \<subseteq> set (notifiedTasks (step H e s))"
proof (cases e)
  case (Restart files)
  with assms show ?thesis
    by (auto simp: recorded_def restart_keeps_def onload_notifiedTasks onload_calls)
next
  case (FileChanged f)
  with assms show ?thesis
    by (simp add: recorded_def handleFileChange_def addToTaskCache_frame)
next
  case (Sweep clk)
  with assms(1) show ?thesis
    by (simp add: checkTasks_def forEach_recorded forEach_mono)
next
  case (UrlEdited v)
  with assms(1) show ?thesis
    by (simp add: recorded_def onChange_def saveSettings_def)
qed

lemma intact_Cons: "intact H (e # evs) s = (restart_keeps e s \<and> intact H evs (step H e s))"
  by (cases e) (simp_all add: restart_keeps_def)

lemma run_recorded:
  "recorded s \<Longrightarrow> intact H evs s \<Longrightarrow>
     recorded (run H evs s) \<and> set (notifiedTasks s) \<subseteq> set (notifiedTasks (run H evs s))"
proof (induction evs arbitrary: s)
  case Nil
  then show ?case by (simp add: run_def)
next
  case (Cons e evs)
  from Cons.prems(2) have k: "restart_keeps e s" and i: "intact H evs (step H e s)"
    by (simp_all add: intact_Cons)
  from step_recorded[OF Cons.prems(1) k, of H]
  have r: "recorded (step H e s)" and m: "set (notifiedTasks s) \<subseteq> set (notifiedTasks (step H e s))"
    by simp_all
  from Cons.IH[OF r i] m show ?case by (auto simp: run_def)
qed

lemma intact_append:
  "intact H (evs1 @ evs2) s = (intact H evs1 s \<and> intact H evs2 (run H evs1 s))"
  by (induction evs1 arbitrary: s) (simp_all add: intact_Cons run_def)

lemma run_append: "run H (evs1 @ evs2) s = run H evs2 (run H evs1 s)"
  by (simp add: run_def)

lemma recorded_before_start: "recorded (before_start d)"
  by (simp add: recorded_def before_start_def)

lemma distinct_count_le_1: "distinct xs \<Longrightarrow> count_list xs x \<le> 1"
  by (induction xs) auto

text \<open>
  Claim C1. For every task identity, across any number of sweeps and starts of the
  process in which the saved notified set is intact, \<open>sendNotification\<close> is called at
  most once for that identity: an identity that is in the notified set is never removed
  from it, the identity of every call is in the set, and \<open>checkTask\<close> calls nothing for
  an identity that is in the set. The events are any starts, file changes, sweeps (with
  any clock) and edits of the URL, from the world before the first start with any saved
  data \<open>d\<close>.
\<close>

theorem at_most_one_notification:
  assumes "intact H (evs1 @ evs2) (before_start d)"
  shows "count_list (map call_id (calls (run H (evs1 @ evs2) (before_start d)))) i \<le> 1
       \<and> set (map call_id (calls (run H (evs1 @ evs2) (before_start d))))
           \<subseteq> set (notifiedTasks (run H (evs1 @ evs2) (before_start d)))
       \<and> set (notifiedTasks (run H evs1 (before_start d)))
           \<subseteq> set (notifiedTasks (run H (evs1 @ evs2) (before_start d)))
       \<and> (taskId H c due \<in> set (notifiedTasks s) \<longrightarrow> checkTask H now c (Some due) s = Inr s)"
proof -
  from assms have i1: "intact H evs1 (before_start d)"
    and i2: "intact H evs2 (run H evs1 (before_start d))"
    by (simp_all add: intact_append)
  from run_recorded[OF recorded_before_start i1]
  have r1: "recorded (run H evs1 (before_start d))" by simp
  from run_recorded[OF r1 i2]
  have r2: "recorded (run H (evs1 @ evs2) (before_start d))"
    and m: "set (notifiedTasks (run H evs1 (before_start d)))
              \<subseteq> set (notifiedTasks (run H (evs1 @ evs2) (before_start d)))"
    by (simp_all add: run_append)
  from r2 have "distinct (map call_id (calls (run H (evs1 @ evs2) (before_start d))))"
    by (simp add: recorded_def)
  then have "count_list (map call_id (calls (run H (evs1 @ evs2) (before_start d)))) i \<le> 1"
    by (rule distinct_count_le_1)
  moreover have "taskId H c due \<in> set (notifiedTasks s) \<longrightarrow> checkTask H now c (Some due) s = Inr s"
    using checkTask_idle[of due now H c s] by blast
  ultimately show ?thesis using r2 m by (simp add: recorded_def)
qed

text \<open>
  The theorem at two starts with a sweep after each, on a vault with one task that is
  due: the second start finds the identity in the saved data, and the task is notified
  once; a further call of \<open>checkTask\<close> for it does nothing.
\<close>

theorem at_most_one_notification_witness:
  "intact utc_host ([Restart [note_X], Sweep at_nine] @ [Restart [note_X], Sweep at_nine])
     (before_start None)
   \<and> calls (run utc_host ([Restart [note_X], Sweep at_nine] @ [Restart [note_X], Sweep at_nine])
        (before_start None)) = [Warn (js ''X'') (js ''2025-01-01T09:00:00.000Z'')]
   \<and> count_list
        (map call_id
          (calls (run utc_host ([Restart [note_X], Sweep at_nine] @ [Restart [note_X], Sweep at_nine])
             (before_start None))))
        (js ''X-2025-01-01T09:00:00.000Z'') \<le> 1
   \<and> taskId utc_host (js ''X'') 1735722000000 \<in> set (notifiedTasks notified)
   \<and> checkTask utc_host 1735722060000 (js ''X'') (Some 1735722000000) notified = Inr notified"
proof -
  have h: "intact utc_host ([Restart [note_X], Sweep at_nine] @ [Restart [note_X], Sweep at_nine])
     (before_start None)"
    by code_simp
  have c: "calls (run utc_host ([Restart [note_X], Sweep at_nine] @ [Restart [note_X], Sweep at_nine])
        (before_start None)) = [Warn (js ''X'') (js ''2025-01-01T09:00:00.000Z'')]"
    by code_simp
  have n: "taskId utc_host (js ''X'') 1735722000000 \<in> set (notifiedTasks notified)"
    by code_simp
  from at_most_one_notification[OF h, of "js ''X-2025-01-01T09:00:00.000Z''" "js ''X''"
      1735722000000 notified 1735722060000] h c n
  show ?thesis by blast
qed

subsection \<open>The due time\<close>

text \<open>
  What one call of \<open>checkTask\<close> does with the due time, and what a sweep keeps apart:
  when the due time is strictly later than the reading of the clock, \<open>checkTask\<close> calls
  nothing and leaves the notified set (and all the state) as it is; when the due time is
  at or before the reading and the identity is not yet in the notified set, \<open>checkTask\<close>
  makes exactly one call of \<open>sendNotification\<close>, for this identity, and adds the identity
  to the set; and the calls of one sweep are for pairwise different identities.
\<close>

lemma due_time_decides:
  "(now < due \<longrightarrow> checkTask H now c (Some due) s = Inr s)
   \<and> (due' \<le> now' \<and> taskId H c' due' \<notin> set (notifiedTasks s') \<longrightarrow>
        (\<exists>s'' k. checkTask H now' c' (Some due') s' = Inr s''
           \<and> calls s'' = calls s' @ [k] \<and> call_id k = taskId H c' due'
           \<and> notifiedTasks s'' = notifiedTasks s' @ [taskId H c' due']))
   \<and> (\<exists>new. calls (snd (checkTasks H clk s)) = calls s @ new \<and> distinct (map call_id new))"
proof -
  have a: "now < due \<longrightarrow> checkTask H now c (Some due) s = Inr s"
    using checkTask_idle[of due now H c s] by auto
  have b: "due' \<le> now' \<and> taskId H c' due' \<notin> set (notifiedTasks s') \<longrightarrow>
        (\<exists>s'' k. checkTask H now' c' (Some due') s' = Inr s''
           \<and> calls s'' = calls s' @ [k] \<and> call_id k = taskId H c' due'
           \<and> notifiedTasks s'' = notifiedTasks s' @ [taskId H c' due'])"
    using checkTask_fires[of due' now' H c' s'] by blast
  have c: "\<exists>new. calls (snd (checkTasks H clk s)) = calls s @ new \<and> distinct (map call_id new)"
    using forEach_new_calls[of H clk 0 "taskCache s" s] unfolding checkTasks_def by blast
  from a b c show ?thesis by blast
qed

text \<open>
  The task of the example: one millisecond before its due time nothing happens, at its due
  time it is notified.
\<close>

lemma due_time_decides_example:
  "((1735721999999 :: int) < 1735722000000
      \<and> checkTask utc_host 1735721999999 (js ''X'') (Some 1735722000000) started = Inr started)
   \<and> ((1735722000000 :: int) \<le> 1735722000000
      \<and> taskId utc_host (js ''X'') 1735722000000 \<notin> set (notifiedTasks started)
      \<and> (\<exists>s'' k. checkTask utc_host 1735722000000 (js ''X'') (Some 1735722000000) started = Inr s''
           \<and> calls s'' = calls started @ [k]
           \<and> call_id k = taskId utc_host (js ''X'') 1735722000000
           \<and> notifiedTasks s''
               = notifiedTasks started @ [taskId utc_host (js ''X'') 1735722000000]))"
proof -
  have n: "taskId utc_host (js ''X'') 1735722000000 \<notin> set (notifiedTasks started)"
    by code_simp
  from due_time_decides[where now = 1735721999999 and due = 1735722000000 and H = utc_host
      and c = "js ''X''" and s = started and now' = 1735722000000 and due' = 1735722000000
      and c' = "js ''X''" and s' = started] n
  show ?thesis by simp
qed

text \<open>
  Claim C2 says, for every task that is in the cache when a sweep runs: a task whose due
  time is strictly later than the current time is not notified and its identity is not
  added to the notified set, and a task whose due time is at or before the current time
  and whose identity is not yet in the notified set is notified exactly once on that
  sweep. The first part holds (\<open>due_time_decides\<close>), and so does the second when every date
  of the cache is valid (\<open>sweep_fires_each_valid_due_task_once\<close>). But a sweep that meets
  a task with an invalid date ends there with the \<open>RangeError\<close> of \<open>toISOString\<close>, and the
  tasks behind it are not handed to \<open>checkTask\<close>. After the start on the note whose first
  marker has a date that does not exist, the task \<open>X\<close> is at position 1 of the cache, it
  is due at the reading of the clock for that position, and its identity is not in the
  notified set; the sweep ends with the exception, makes no call, and leaves the identity
  out of the notified set.
\<close>

theorem due_task_behind_invalid_date_not_notified:
  "taskCache started_bad_date ! 1 = task_X
   \<and> dueDateTime task_X = Some 1735722000000
   \<and> (1735722000000 :: int) \<le> at_nine 1
   \<and> taskId utc_host (content task_X) 1735722000000 \<notin> set (notifiedTasks started_bad_date)
   \<and> fst (checkTasks utc_host at_nine started_bad_date) = Some RangeError
   \<and> calls (snd (checkTasks utc_host at_nine started_bad_date)) = calls started_bad_date
   \<and> calls (snd (checkTasks utc_host at_nine started_bad_date)) = []
   \<and> taskId utc_host (content task_X) 1735722000000
       \<notin> set (notifiedTasks (snd (checkTasks utc_host at_nine started_bad_date)))"
  by code_simp

subsection \<open>A blank URL\<close>

lemma trim_Nil_iff: "trim v = [] \<longleftrightarrow> list_all isWhiteSpace v"
proof
  assume "trim v = []"
  then have "dropWhile isWhiteSpace (rev (dropWhile isWhiteSpace v)) = []"
    by (simp add: trim_def)
  then have "\<forall>x \<in> set (dropWhile isWhiteSpace v). isWhiteSpace x"
    by (simp add: dropWhile_eq_Nil_conv)
  then have "dropWhile isWhiteSpace v = []"
    using hd_dropWhile[of isWhiteSpace v] by (cases "dropWhile isWhiteSpace v") auto
  then show "list_all isWhiteSpace v"
    by (simp add: dropWhile_eq_Nil_conv list_all_iff)
next
  assume "list_all isWhiteSpace v"
  then have "dropWhile isWhiteSpace v = []"
    by (simp add: dropWhile_eq_Nil_conv list_all_iff)
  then show "trim v = []" by (simp add: trim_def del: dropWhile_eq_Nil_conv)
qed

lemma sendNotification_blank:
  "blank (webhookUrl (settings s)) \<Longrightarrow>
     sendNotification r d s = s\<lparr>calls := calls s @ [Warn r d]\<rparr>"
  by (auto simp: sendNotification_def blank_def trim_Nil_iff split: option.splits)

text \<open>
  Claim C8. When the URL of the settings is unset or consists of white space only, a due
  task that was not notified yet still gets its identity into the notified set (and into
  the saved data) in \<open>checkTask\<close>, and \<open>sendNotification\<close> only warns: it posts nothing.
\<close>

theorem blank_url_still_records:
  assumes "blank (webhookUrl (settings s))" "due \<le> now"
    "taskId H c due \<notin> set (notifiedTasks s)"
  shows "\<exists>s'. checkTask H now c (Some due) s = Inr s'
           \<and> taskId H c due \<in> set (notifiedTasks s')
           \<and> taskId H c due \<in> set (persisted s')
           \<and> calls s' = calls s @ [Warn c (toISOString H due)]"
proof -
  let ?s1 = "saveNotifiedTasks (s\<lparr>notifiedTasks := Set_add (taskId H c due) (notifiedTasks s)\<rparr>)"
  from assms(2,3) have ct: "checkTask H now c (Some due) s
      = Inr (sendNotification c (toISOString H due) ?s1)"
    by (simp add: checkTask_def)
  from assms(1) have "blank (webhookUrl (settings ?s1))" by (simp add: saveNotifiedTasks_def)
  then have sn: "sendNotification c (toISOString H due) ?s1
      = ?s1\<lparr>calls := calls ?s1 @ [Warn c (toISOString H due)]\<rparr>"
    by (rule sendNotification_blank)
  show ?thesis
    unfolding ct sn
    by (simp add: saveNotifiedTasks_def persisted_def set_Set_add)
qed

text \<open>
  The theorem at a saved URL of two spaces.
\<close>

theorem blank_url_still_records_witness:
  "blank (webhookUrl (settings started_blank))
   \<and> (1735722000000 :: int) \<le> 1735722060000
   \<and> taskId utc_host (js ''X'') 1735722000000 \<notin> set (notifiedTasks started_blank)
   \<and> (\<exists>s'. checkTask utc_host 1735722060000 (js ''X'') (Some 1735722000000) started_blank = Inr s'
         \<and> taskId utc_host (js ''X'') 1735722000000 \<in> set (notifiedTasks s')
         \<and> taskId utc_host (js ''X'') 1735722000000 \<in> set (persisted s')
         \<and> calls s' = calls started_blank @ [Warn (js ''X'') (toISOString utc_host 1735722000000)])"
proof -
  have b: "blank (webhookUrl (settings started_blank))" by code_simp
  have n: "taskId utc_host (js ''X'') 1735722000000 \<notin> set (notifiedTasks started_blank)"
    by code_simp
  have d: "(1735722000000 :: int) \<le> 1735722060000" by simp
  from blank_url_still_records[OF b d n] b n show ?thesis by simp
qed

subsection \<open>The cache\<close>

text \<open>
  Claim C3 says that a change of a document replaces the tasks of that document in the
  cache, and that the cache holds one entry for an identity. The code does neither.
  After the marker of the example note is removed and the change is handled, the task
  is still in the cache, although the note has no task any more; and after a change that
  leaves the note as it is, the cache holds two entries of the same identity.
\<close>

theorem cache_keeps_removed_tasks_counterexample:
  "taskCache (run utc_host [Restart [note_X], FileChanged note_X_unmarked] (before_start None))
     = [task_X]
   \<and> extractTasks utc_host (fileContent note_X_unmarked) = []
   \<and> map (identity utc_host)
        (taskCache (run utc_host [Restart [note_X], FileChanged note_X] (before_start None)))
     = [Inr (js ''X-2025-01-01T09:00:00.000Z''), Inr (js ''X-2025-01-01T09:00:00.000Z'')]"
  by code_simp

text \<open>
  Claim C3 as amended. A change of a markdown document adds the tasks extracted from its
  current text to the cache and removes nothing, so the tasks of the document's earlier
  text stay, and a task that is extracted again is entered again; a file with another
  extension changes nothing. Only the scan at the start replaces the cache: it empties
  the cache and then adds the tasks of every markdown document.
\<close>

theorem cache_only_grows_on_change:
  "taskCache (handleFileChange H f s)
     = (if extension f = js ''md'' then taskCache s @ extractTasks H (fileContent f)
        else taskCache s)
   \<and> set (taskCache s) \<subseteq> set (taskCache (handleFileChange H f s))
   \<and> taskCache (initializeTaskCache H files s)
     = concat (map (\<lambda>f. extractTasks H (fileContent f))
                (filter (\<lambda>f. extension f = js ''md'') files))"
  by (simp add: handleFileChange_def addToTaskCache_def initializeTaskCache_def
      fold_addToTaskCache_cache del: extractTasks.simps)

text \<open>
  The theorem at the example: after the start, a change to the note without its marker, a
  change that leaves the note as it is, and a new scan of the vault.
\<close>

theorem cache_only_grows_on_change_witness:
  "taskCache (handleFileChange utc_host note_X_unmarked started) = [task_X]
   \<and> taskCache (handleFileChange utc_host note_X started) = [task_X, task_X]
   \<and> taskCache (initializeTaskCache utc_host [note_X_unmarked] started) = []"
proof -
  have "taskCache started = [task_X]" "extension note_X = js ''md''"
    "extension note_X_unmarked = js ''md''"
    "extractTasks utc_host (fileContent note_X) = [task_X]"
    "extractTasks utc_host (fileContent note_X_unmarked) = []"
    by code_simp+
  with cache_only_grows_on_change[of utc_host note_X_unmarked started "[note_X_unmarked]"]
    cache_only_grows_on_change[of utc_host note_X started "[]"]
  show ?thesis by simp
qed

subsection \<open>The saved data\<close>

text \<open>
  Claim C4 says that the saved notified set survives whichever save ran before a
  restart, \<open>saveSettings\<close> leaving the saved record \<open>notifiedTasks\<close> and
  \<open>saveNotifiedTasks\<close> the saved settings as they are. In the code each of the two
  writes the whole data object, without the other's record. On a vault with the note
  of the example and a saved URL: the sweep that notifies the task saves the notified
  set, and the saved URL is gone; an edit of the URL then saves the settings, and
  the saved notified set is gone; the next start finds no notified task, and the next
  sweep notifies the same task again. Without the edit, a restart after the first sweep
  finds no saved URL and falls back to the empty default. (\<open>onload_notifiedTasks\<close> is the
  part that holds: a start loads exactly the identities that the saved data holds at
  that moment.)
\<close>

theorem saves_overwrite_each_other:
  "stored (run utc_host [Restart [note_X], Sweep at_nine]
      (before_start (Some \<lparr>webhookUrl = Some (js ''https://h/1''), notifiedTasks_record = None\<rparr>)))
     = Some \<lparr>webhookUrl = None,
             notifiedTasks_record = Some [js ''X-2025-01-01T09:00:00.000Z'']\<rparr>
   \<and> stored (run utc_host [Restart [note_X], Sweep at_nine, UrlEdited (js ''https://h/2'')]
      (before_start (Some \<lparr>webhookUrl = Some (js ''https://h/1''), notifiedTasks_record = None\<rparr>)))
     = Some \<lparr>webhookUrl = Some (js ''https://h/2''), notifiedTasks_record = None\<rparr>
   \<and> notifiedTasks
       (run utc_host [Restart [note_X], Sweep at_nine, UrlEdited (js ''https://h/2''), Restart [note_X]]
         (before_start (Some \<lparr>webhookUrl = Some (js ''https://h/1''), notifiedTasks_record = None\<rparr>)))
     = []
   \<and> calls
       (run utc_host [Restart [note_X], Sweep at_nine, UrlEdited (js ''https://h/2''),
                       Restart [note_X], Sweep at_nine]
         (before_start (Some \<lparr>webhookUrl = Some (js ''https://h/1''), notifiedTasks_record = None\<rparr>)))
     = [Post (js ''https://h/1'') (js ''X'') (js ''2025-01-01T09:00:00.000Z''),
        Post (js ''https://h/2'') (js ''X'') (js ''2025-01-01T09:00:00.000Z'')]
   \<and> webhookUrl (settings
       (run utc_host [Restart [note_X], Sweep at_nine, Restart [note_X]]
         (before_start (Some \<lparr>webhookUrl = Some (js ''https://h/1''), notifiedTasks_record = None\<rparr>))))
     = Some []"
  by code_simp

subsection \<open>The first sweep after a cold start\<close>

lemma sweep_fires_each_valid_due_task_once:
  assumes "\<forall>t \<in> set (taskCache s). dueDateTime t \<noteq> None"
    "j < length (taskCache s)" "dueDateTime (taskCache s ! j) = Some due" "due \<le> clk j"
    "taskId H (content (taskCache s ! j)) due \<notin> set (notifiedTasks s)"
  shows "fst (checkTasks H clk s) = None
       \<and> count_list (map call_id (drop (length (calls s)) (calls (snd (checkTasks H clk s)))))
           (taskId H (content (taskCache s ! j)) due) = 1"
proof -
  let ?r = "forEach_checkTask H clk 0 (taskCache s) s"
  let ?id = "taskId H (content (taskCache s ! j)) due"
  from forEach_new_calls[of H clk 0 "taskCache s" s] obtain new where new:
    "calls (snd ?r) = calls s @ new" "distinct (map call_id new)"
    "set (notifiedTasks (snd ?r)) = set (notifiedTasks s) \<union> set (map call_id new)"
    by auto
  from forEach_due_recorded[OF assms(1,2,3), of clk 0 H s] assms(4)
  have "?id \<in> set (notifiedTasks (snd ?r))" by simp
  with new(3) assms(5) have "?id \<in> set (map call_id new)" by simp
  then have "count_list (map call_id new) ?id \<noteq> 0" by (simp add: count_list_0_iff)
  with distinct_count_le_1[OF new(2), of ?id] have "count_list (map call_id new) ?id = 1"
    by simp
  with new(1) forEach_completes[OF assms(1), of H clk 0 s] show ?thesis
    by (simp add: checkTasks_def)
qed

lemma first_sweep_fires_each_valid_due_task_once:
  assumes "\<forall>t \<in> set (taskCache s). dueDateTime t \<noteq> None" "notifiedTasks s = []"
    "j < length (taskCache s)" "dueDateTime (taskCache s ! j) = Some due" "due \<le> clk j"
  shows "fst (checkTasks H clk s) = None
       \<and> count_list (map call_id (drop (length (calls s)) (calls (snd (checkTasks H clk s)))))
           (taskId H (content (taskCache s ! j)) due) = 1"
  using sweep_fires_each_valid_due_task_once[of s j due clk H] assms by simp

text \<open>
  Claim C9 says that after a cold start the notified set is empty and the first sweep
  notifies every task of the cache that is already due, once. The first part holds
  (\<open>cold_start_empty\<close>), and so does the second when every date of the cache is valid
  (\<open>first_sweep_fires_each_valid_due_task_once\<close>). But a marker such as
  \<open>(discord@2024-13-40 25:99)\<close> matches the expression and gives a task with an invalid
  date; \<open>toISOString\<close> throws for it, the exception ends the sweep, and the tasks behind
  it in the cache are not checked, in this sweep and in every later one. On the note of
  the example the task \<open>X\<close> is due and is never notified.
\<close>

theorem invalid_date_stops_first_sweep:
  "notifiedTasks (run utc_host [Restart [note_bad_date]] (before_start None)) = []
   \<and> taskCache (run utc_host [Restart [note_bad_date]] (before_start None))
     = [\<lparr>content = js ''bad'', dueDateTime = None\<rparr>, task_X]
   \<and> fst (checkTasks utc_host at_nine (run utc_host [Restart [note_bad_date]] (before_start None)))
     = Some RangeError
   \<and> calls (run utc_host [Restart [note_bad_date], Sweep at_nine, Sweep at_nine] (before_start None))
     = []"
  by code_simp

end
